theory Spec2Isabelle
  imports Main "HOL-Library.AList"
begin

section \<open>Corestore: a registry of hypercores and their replication streams\<close>

text \<open>
  The development embeds \<^verbatim>\<open>index.js\<close> (class \<^verbatim>\<open>Corestore\<close>). The store is an
  event-driven JavaScript object: its methods run to completion on one thread, and the
  log engine (hypercore), the stream engine (hypercore-protocol) and the key helpers
  (hypercore-crypto, dat-encoding) are libraries outside the repository.

  \<^item> Objects with identity (hypercores, protocol streams, the closures of \<^verbatim>\<open>close\<close>)
    live in three object tables of the state; a handle is the index into its table.
  \<^item> A callback registered with a library is data in the state; the library calling it
    back is an event, and every event handler is a function on the state.
  \<^item> The library functions are parameters (record \<open>env\<close>); the random key pair that
    \<^verbatim>\<open>crypto.keyPair()\<close> would return is an argument of the call that may ask for it.
  \<^item> A thrown exception is the \<open>Inl\<close> branch of the result.
\<close>

subsection \<open>Values\<close>

type_synonym bytes = "nat list"
type_synonym core_id = nat
type_synonym stream_id = nat
type_synonym close_id = nat

text \<open>A key as a caller may pass it: a Buffer, or text to be decoded.\<close>

datatype keyval = Buf bytes | Str string

datatype error = DecodeError | ConfigurationError | TypeError

text \<open>The index computed by \<^verbatim>\<open>_optsToIndex\<close> is a string or a Buffer.\<close>

datatype index = IdxStr string | IdxBuf bytes

text \<open>The options of \<^verbatim>\<open>get\<close> and \<^verbatim>\<open>default\<close> that the store reads.\<close>

record coreOpts =
  o_default :: bool
  o_name :: "string option"
  o_key :: "keyval option"
  o_discoveryKey :: "keyval option"
  o_secretKey :: "bytes option"
  o_keyPair :: "(bytes \<times> bytes) option"

definition no_opts :: coreOpts where
  "no_opts = \<lparr>o_default = False, o_name = None, o_key = None, o_discoveryKey = None,
     o_secretKey = None, o_keyPair = None\<rparr>"

text \<open>\<^verbatim>\<open>get\<close> and \<^verbatim>\<open>default\<close> accept an options object or a bare Buffer.\<close>

datatype arg = Opts coreOpts | Buffer bytes

text \<open>
  JavaScript truthiness of the option values: an absent value and the empty string are
  falsy, every Buffer is truthy.
\<close>

definition truthy_key :: "keyval option \<Rightarrow> bool" where
  "truthy_key v = (case v of None \<Rightarrow> False | Some (Buf b) \<Rightarrow> True | Some (Str s) \<Rightarrow> s \<noteq> [])"

definition truthy_name :: "string option \<Rightarrow> bool" where
  "truthy_name v = (case v of None \<Rightarrow> False | Some s \<Rightarrow> s \<noteq> [])"

text \<open>The library functions the store calls.\<close>

record env =
  crypto_discoveryKey :: "bytes \<Rightarrow> bytes"
  dat_encode :: "bytes \<Rightarrow> string"
  dat_decode :: "string \<Rightarrow> bytes option"

subsection \<open>The key indexer\<close>

text \<open>
  \<^verbatim>\<open>_optsToIndex(coreOpts)\<close> returns \<^verbatim>\<open>{ idx, key, secretKey }\<close>; \<open>fresh\<close> is the pair
  \<^verbatim>\<open>crypto.keyPair()\<close> returns if it is called. \<^verbatim>\<open>datEncoding.decode\<close> throws on
  malformed text.
\<close>

definition decode_idx :: "env \<Rightarrow> keyval \<Rightarrow> error + bytes" where
  "decode_idx E v = (case v of Buf b \<Rightarrow> Inr b
     | Str s \<Rightarrow> (case dat_decode E s of None \<Rightarrow> Inl DecodeError | Some b \<Rightarrow> Inr b))"

definition optsToIndex ::
  "env \<Rightarrow> bytes \<times> bytes \<Rightarrow> coreOpts \<Rightarrow> error + (index \<times> keyval option \<times> bytes option)" where
  "optsToIndex E fresh co =
     (if o_default co \<and> \<not> truthy_key (o_key co) \<and> o_secretKey co = None then
        Inr (IdxStr ''default'', None, None)
      else if truthy_name (o_name co) \<and> \<not> truthy_key (o_key co) \<and> o_secretKey co = None then
        Inr (IdxStr (the (o_name co)), None, None)
      else
        (let idx = (if truthy_key (o_key co) then o_key co else o_discoveryKey co) in
         if \<not> truthy_key idx then
           (let (publicKey, secretKey) = (case o_keyPair co of Some kp \<Rightarrow> kp | None \<Rightarrow> fresh) in
            Inr (IdxBuf (crypto_discoveryKey E publicKey),
                 (if truthy_key (o_key co) then o_key co else Some (Buf publicKey)),
                 Some secretKey))
         else
           (case decode_idx E (the idx) of
              Inl e \<Rightarrow> Inl e
            | Inr b \<Rightarrow>
                Inr (IdxBuf (if truthy_key (o_key co) then crypto_discoveryKey E b else b),
                     (if truthy_key (o_key co) then o_key co else None),
                     None))))"

subsection \<open>Objects and the store\<close>

text \<open>
  A hypercore as the store sees it. \<open>c_state\<close>, \<open>c_key\<close>, \<open>c_discoveryKey\<close>,
  \<open>c_closed\<close> and \<open>c_closing\<close> belong to the engine; \<open>c_discovery\<close> and \<open>c_errored\<close>
  are the variables \<^verbatim>\<open>coreOpts.discoveryKey\<close> (its truthiness) and \<^verbatim>\<open>errored\<close> captured
  by the listeners that \<^verbatim>\<open>get\<close> installs. \<open>c_closing\<close> lists the \<^verbatim>\<open>close(cb)\<close> requests
  the engine has not answered yet, each by the \<^verbatim>\<open>close\<close> call its callback belongs to.
\<close>

datatype engine_state = Pending | Opened | Failed

record core =
  c_given_key :: "keyval option"
  c_secretKey :: "bytes option"
  c_storageRoot :: string
  c_createIfMissing :: bool
  c_discovery :: bool
  c_errored :: bool
  c_state :: engine_state
  c_key :: "bytes option"
  c_discoveryKey :: "bytes option"
  c_closed :: bool
  c_closing :: "close_id list"

text \<open>
  A protocol stream: \<open>s_feeds\<close> is \<^verbatim>\<open>mainStream.feeds\<close>, each entry given by the core
  its \<^verbatim>\<open>peer.feed\<close> is; \<open>s_destroyed\<close> counts the calls of \<^verbatim>\<open>destroy()\<close>; \<open>s_closed\<close>
  is the variable \<^verbatim>\<open>closed\<close> of the \<^verbatim>\<open>replicate\<close> call that made the stream.
\<close>

record stream =
  s_feeds :: "core_id list"
  s_destroyed :: nat
  s_closed :: bool

text \<open>
  One call of \<^verbatim>\<open>close(cb)\<close>: its counter \<^verbatim>\<open>remaining\<close> and the arguments \<^verbatim>\<open>cb\<close> has
  been called with so far (\<open>None\<close> is \<^verbatim>\<open>null\<close>).
\<close>

record close_op =
  remaining :: int
  cb_calls :: "string option list"

text \<open>
  The store. \<open>cores\<close> is the JavaScript \<^verbatim>\<open>Map\<close> (insertion-ordered, so an association
  list updated with \<^const>\<open>AList.update\<close>), \<open>replicationStreams\<close> the array of stream
  states (one per stream, so a stream state is named by its stream).
  \<open>ready_cbs\<close> holds the callbacks passed to \<^verbatim>\<open>core.ready\<close> by \<^verbatim>\<open>_replicateCore\<close> and
  not yet called; \<open>feed_events\<close> the cores announced with \<^verbatim>\<open>this.emit('feed', ...)\<close>.
\<close>

record store =
  cores :: "(string \<times> core_id) list"
  replicationStreams :: "stream_id list"
  defaultCore :: "core_id option"
  storeId :: bytes
  objs :: "core list"
  streams :: "stream list"
  closes :: "close_op list"
  ready_cbs :: "(core_id \<times> stream_id) list"
  feed_events :: "core_id list"

text \<open>The constructor; \<open>sid\<close> is what \<^verbatim>\<open>crypto.randomBytes(5)\<close> returned.\<close>

definition Corestore :: "bytes \<Rightarrow> store" where
  "Corestore sid = \<lparr>cores = [], replicationStreams = [], defaultCore = None, storeId = sid,
     objs = [], streams = [], closes = [], ready_cbs = [], feed_events = []\<rparr>"

subsection \<open>Attaching a core to a stream\<close>

text \<open>
  \<^verbatim>\<open>_replicateCore(core, mainStream, opts)\<close> only registers a callback with
  \<^verbatim>\<open>core.ready\<close>. The engine calls it back later (\<open>ready_callback\<close>, with the error
  flag), and \<^verbatim>\<open>core.replicate({..., stream})\<close> is taken to add the core to the stream's
  feeds before it returns.
\<close>

definition replicateCore :: "core_id \<Rightarrow> stream_id \<Rightarrow> store \<Rightarrow> store" where
  "replicateCore c s st = st\<lparr>ready_cbs := ready_cbs st @ [(c, s)]\<rparr>"

definition core_replicate :: "core_id \<Rightarrow> stream_id \<Rightarrow> store \<Rightarrow> store" where
  "core_replicate c s st =
     st\<lparr>streams := (streams st)[s := (streams st ! s)\<lparr>s_feeds := s_feeds (streams st ! s) @ [c]\<rparr>]\<rparr>"

definition ready_callback :: "core_id \<Rightarrow> stream_id \<Rightarrow> bool \<Rightarrow> store \<Rightarrow> store" where
  "ready_callback c s err st =
     (if err then st
      else if c \<in> set (s_feeds (streams st ! s)) then st
      else core_replicate c s st)"

definition injectIntoReplicationStreams :: "core_id \<Rightarrow> store \<Rightarrow> store" where
  "injectIntoReplicationStreams c st = foldl (\<lambda>a s. replicateCore c s a) st (replicationStreams st)"

subsection \<open>Accessors\<close>

definition isDefaultSet :: "store \<Rightarrow> bool" where
  "isDefaultSet st = (defaultCore st \<noteq> None)"

text \<open>
  \<^verbatim>\<open>getInfo()\<close>: the fields \<^verbatim>\<open>defaultKey\<close> and \<^verbatim>\<open>discoveryKey\<close> are guarded by
  \<^verbatim>\<open>this.defaultCore &&\<close>, the field \<^verbatim>\<open>replicationId: this.defaultCore.id\<close> is not, and
  reading a property of \<^verbatim>\<open>null\<close> throws a TypeError. The default core's \<^verbatim>\<open>id\<close> is
  represented by its handle.
\<close>

record info =
  i_id :: bytes
  i_defaultKey :: "bytes option"
  i_discoveryKey :: "bytes option"
  i_replicationId :: core_id
  i_cores :: "(string \<times> core_id) list"

definition getInfo :: "store \<Rightarrow> error + info" where
  "getInfo st =
     (let defaultKey = (case defaultCore st of None \<Rightarrow> None | Some d \<Rightarrow> c_key (objs st ! d));
          discoveryKey = (case defaultCore st of None \<Rightarrow> None | Some d \<Rightarrow> c_discoveryKey (objs st ! d))
      in case defaultCore st of
           None \<Rightarrow> Inl TypeError
         | Some d \<Rightarrow> Inr \<lparr>i_id = storeId st, i_defaultKey = defaultKey,
                          i_discoveryKey = discoveryKey, i_replicationId = d, i_cores = cores st\<rparr>)"


subsection \<open>get and default\<close>

definition idxString :: "env \<Rightarrow> index \<Rightarrow> string" where
  "idxString E idx = (case idx of IdxBuf b \<Rightarrow> dat_encode E b | IdxStr s \<Rightarrow> s)"

definition storageRoot :: "coreOpts \<Rightarrow> string \<Rightarrow> string" where
  "storageRoot co s =
     (if s \<noteq> ''default'' \<and> \<not> truthy_name (o_name co)
      then take 2 s @ ''/'' @ take 2 (drop 2 s) @ ''/'' @ s
      else s)"

definition arg_opts :: "arg \<Rightarrow> coreOpts" where
  "arg_opts a = (case a of Buffer b \<Rightarrow> no_opts\<lparr>o_key := Some (Buf b)\<rparr> | Opts co \<Rightarrow> co)"

text \<open>The hypercore made by \<^verbatim>\<open>get\<close>, before the engine has opened it.\<close>

definition new_core :: "coreOpts \<Rightarrow> string \<Rightarrow> keyval option \<Rightarrow> bytes option \<Rightarrow> core" where
  "new_core co root key secretKey =
     \<lparr>c_given_key = key,
      c_secretKey = (case o_secretKey co of Some sk \<Rightarrow> Some sk | None \<Rightarrow> secretKey),
      c_storageRoot = root,
      c_createIfMissing = (\<not> truthy_key (o_discoveryKey co)),
      c_discovery = truthy_key (o_discoveryKey co),
      c_errored = False, c_state = Pending, c_key = None, c_discoveryKey = None,
      c_closed = False, c_closing = []\<rparr>"

definition get :: "env \<Rightarrow> bytes \<times> bytes \<Rightarrow> arg \<Rightarrow> store \<Rightarrow> error + (core_id \<times> store)" where
  "get E fresh a st =
     (let co = arg_opts a in
      case optsToIndex E fresh co of
        Inl e \<Rightarrow> Inl e
      | Inr (idx, key, secretKey) \<Rightarrow>
          (case map_of (cores st) (idxString E idx) of
             Some existing \<Rightarrow> Inr (existing, injectIntoReplicationStreams existing st)
           | None \<Rightarrow>
               Inr (length (objs st),
                    st\<lparr>objs := objs st @
                         [new_core co (storageRoot co (idxString E idx)) key secretKey]\<rparr>)))"

text \<open>
  \<^verbatim>\<open>default(coreOpts)\<close>: the flag \<^verbatim>\<open>default\<close> is set on the options when they carry
  neither a key pair nor a key.
\<close>

definition default_store :: "env \<Rightarrow> bytes \<times> bytes \<Rightarrow> arg \<Rightarrow> store \<Rightarrow> error + (core_id \<times> store)" where
  "default_store E fresh a st =
     (let co = arg_opts a in
      case defaultCore st of
        Some d \<Rightarrow> Inr (d, st)
      | None \<Rightarrow>
          (let co' = (if o_keyPair co = None \<and> \<not> truthy_key (o_key co)
                      then co\<lparr>o_default := True\<rparr> else co) in
           case get E fresh (Opts co') st of
             Inl e \<Rightarrow> Inl e
           | Inr (c, st') \<Rightarrow> Inr (c, st'\<lparr>defaultCore := Some c\<rparr>)))"

text \<open>The listeners \<^verbatim>\<open>get\<close> installs on a new core, for \<^verbatim>\<open>'error'\<close> and \<^verbatim>\<open>'ready'\<close>.\<close>

definition errorListener :: "core_id \<Rightarrow> store \<Rightarrow> store" where
  "errorListener c st =
     (if c_discovery (objs st ! c)
      then st\<lparr>objs := (objs st)[c := (objs st ! c)\<lparr>c_errored := True\<rparr>]\<rparr>
      else st)"

definition ready_listener :: "env \<Rightarrow> core_id \<Rightarrow> store \<Rightarrow> store" where
  "ready_listener E c st =
     (if c_errored (objs st ! c) then st
      else
        (let st1 = st\<lparr>feed_events := feed_events st @ [c]\<rparr>;
             st2 = st1\<lparr>cores := AList.update (dat_encode E (the (c_key (objs st ! c)))) c (cores st1)\<rparr>;
             st3 = st2\<lparr>cores := AList.update (dat_encode E (the (c_discoveryKey (objs st ! c)))) c (cores st2)\<rparr>
         in injectIntoReplicationStreams c st3))"

subsection \<open>replicate\<close>

text \<open>
  The options of \<^verbatim>\<open>replicate\<close> that the store reads, and its first argument: absent,
  a key (Buffer or string), or an options object passed in its place.
\<close>

record repOpts =
  encrypt :: bool

datatype repArg = NoKey | KeyArg keyval | OptsArg repOpts

text \<open>
  \<^verbatim>\<open>indexOf\<close> returns -1 for an element that is absent, and \<^verbatim>\<open>splice(start, 1)\<close>
  counts a negative \<^verbatim>\<open>start\<close> from the end of the array.
\<close>

definition indexOf :: "'a list \<Rightarrow> 'a \<Rightarrow> int" where
  "indexOf xs x = (if x \<in> set xs then int (length (takeWhile (\<lambda>y. y \<noteq> x) xs)) else - 1)"

definition splice1 :: "int \<Rightarrow> 'a list \<Rightarrow> 'a list" where
  "splice1 start xs =
     (let n = int (length xs);
          from = (if start < 0 then max (n + start) 0 else min start n)
      in take (nat from) xs @ drop (nat from + 1) xs)"

text \<open>
  The listener \<^verbatim>\<open>onclose\<close> that \<^verbatim>\<open>replicate\<close> installs for \<^verbatim>\<open>'finish'\<close>, \<^verbatim>\<open>'end'\<close> and
  \<^verbatim>\<open>'close'\<close> of its stream.
\<close>

definition replicate_onclose :: "stream_id \<Rightarrow> store \<Rightarrow> store" where
  "replicate_onclose s st =
     (if \<not> s_closed (streams st ! s)
      then st\<lparr>replicationStreams := splice1 (indexOf (replicationStreams st) s) (replicationStreams st),
              streams := (streams st)[s := (streams st ! s)\<lparr>s_closed := True\<rparr>]\<rparr>
      else st)"

text \<open>
  The body of \<^verbatim>\<open>replicate\<close> after its argument check. The stream that
  \<^verbatim>\<open>this.defaultCore.replicate(...)\<close> returns carries the default core as its feed; the
  stream \<^verbatim>\<open>protocol(...)\<close> returns carries none.
\<close>

definition open_stream :: "store \<Rightarrow> stream_id \<times> store" where
  "open_stream st =
     (let mainStream = length (streams st);
          st1 = st\<lparr>streams := streams st @
                  [\<lparr>s_feeds = (case defaultCore st of Some d \<Rightarrow> [d] | None \<Rightarrow> []),
                    s_destroyed = 0, s_closed = False\<rparr>]\<rparr>;
          st2 = foldl (\<lambda>a (k, c). replicateCore c mainStream a) st1 (cores st1)
      in (mainStream, st2\<lparr>replicationStreams := replicationStreams st2 @ [mainStream]\<rparr>))"

definition is_opts :: "repArg \<Rightarrow> bool" where
  "is_opts a = (case a of OptsArg ro \<Rightarrow> True | _ \<Rightarrow> False)"

function replicate_store :: "repArg \<Rightarrow> repOpts option \<Rightarrow> store \<Rightarrow> error + (stream_id \<times> store)" where
  "replicate_store discoveryKey replicationOpts st =
     (case discoveryKey of
        OptsArg ro \<Rightarrow> replicate_store NoKey (Some ro) st
      | _ \<Rightarrow>
          (if defaultCore st = None then
             (case replicationOpts of
                None \<Rightarrow> Inl TypeError
              | Some ro \<Rightarrow> if encrypt ro then Inl ConfigurationError else Inr (open_stream st))
           else Inr (open_stream st)))"
  by pat_completeness auto
termination
  by (relation "measure (\<lambda>(a, ro, st). if is_opts a then 1 else 0)") (auto simp: is_opts_def)

declare replicate_store.simps [simp del]

subsection \<open>close\<close>

text \<open>
  \<^verbatim>\<open>close(cb)\<close> and its two local functions. \<^verbatim>\<open>stream.destroy()\<close> is counted on the
  stream; \<^verbatim>\<open>core.close(onclose)\<close> is recorded on the core until the engine answers it.
\<close>

definition reset :: "close_id \<Rightarrow> string option \<Rightarrow> store \<Rightarrow> store" where
  "reset op err st =
     st\<lparr>cores := [], replicationStreams := [],
        closes := (closes st)[op := (closes st ! op)\<lparr>cb_calls := cb_calls (closes st ! op) @ [err]\<rparr>]\<rparr>"

definition close_onclose :: "close_id \<Rightarrow> string option \<Rightarrow> store \<Rightarrow> store" where
  "close_onclose op err st =
     (case err of
        Some e \<Rightarrow> reset op err st
      | None \<Rightarrow>
          (let st1 = st\<lparr>closes := (closes st)[op := (closes st ! op)\<lparr>remaining := remaining (closes st ! op) - 1\<rparr>]\<rparr>
           in if remaining (closes st1 ! op) = 0 then reset op None st1 else st1))"

definition destroy :: "stream_id \<Rightarrow> store \<Rightarrow> store" where
  "destroy s st =
     st\<lparr>streams := (streams st)[s := (streams st ! s)\<lparr>s_destroyed := Suc (s_destroyed (streams st ! s))\<rparr>]\<rparr>"

definition core_close :: "core_id \<Rightarrow> close_id \<Rightarrow> store \<Rightarrow> store" where
  "core_close c op st =
     st\<lparr>objs := (objs st)[c := (objs st ! c)\<lparr>c_closing := c_closing (objs st ! c) @ [op]\<rparr>]\<rparr>"

definition close :: "store \<Rightarrow> store" where
  "close st =
     (let op = length (closes st);
          st1 = st\<lparr>closes := closes st @ [\<lparr>remaining = int (length (cores st)), cb_calls = []\<rparr>]\<rparr>;
          st2 = foldl (\<lambda>a s. destroy s a) st1 (replicationStreams st1)
      in foldl (\<lambda>a (k, c). if \<not> c_closed (objs a ! c) then core_close c op a else a) st2 (cores st2))"

subsection \<open>Events\<close>

text \<open>
  What can happen to a store: a call of one of its methods, or one of the engines
  calling back. The engines are taken to behave as follows.
  \<^item> A core leaves \<open>Pending\<close> once: the engine either opens it, sets its \<^verbatim>\<open>key\<close> and
    \<^verbatim>\<open>discoveryKey\<close> (the latter derived from the former) and emits \<^verbatim>\<open>'ready'\<close>, or it
    fails to open it and emits \<^verbatim>\<open>'error'\<close>. So each listener of \<^verbatim>\<open>get\<close> runs at most once.
  \<^item> The callbacks passed to \<^verbatim>\<open>core.ready\<close> are called after the core has left
    \<open>Pending\<close>, in the order they were registered, with an error iff the core failed.
  \<^item> A stream emits \<^verbatim>\<open>'feed'\<close> with a discovery key (a Buffer) and any of \<^verbatim>\<open>'finish'\<close>,
    \<^verbatim>\<open>'end'\<close>, \<^verbatim>\<open>'close'\<close>, at any time and in any order.
  \<^item> The engine answers the oldest unanswered \<^verbatim>\<open>close(cb)\<close> of a core, with or without
    an error, and the core is closed from then on.
  All engine events are delivered between, never inside, the store's methods.
  An event naming an object that does not exist, or not enabled by these rules, leaves
  the store as it is; so does a method call that throws.
\<close>

datatype event =
    CallGet arg "bytes \<times> bytes"
  | CallDefault arg "bytes \<times> bytes"
  | CallReplicate repArg "repOpts option"
  | CallClose
  | CoreReady core_id bytes
  | CoreError core_id
  | ReadyCallbacks core_id
  | StreamFeed stream_id bytes
  | StreamFinish stream_id
  | StreamEnd stream_id
  | StreamClose stream_id
  | CoreClosed core_id "string option"

definition engine_opened :: "env \<Rightarrow> core_id \<Rightarrow> bytes \<Rightarrow> store \<Rightarrow> store" where
  "engine_opened E c k st =
     st\<lparr>objs := (objs st)[c := (objs st ! c)\<lparr>c_state := Opened, c_key := Some k,
                                            c_discoveryKey := Some (crypto_discoveryKey E k)\<rparr>]\<rparr>"

definition engine_failed :: "core_id \<Rightarrow> store \<Rightarrow> store" where
  "engine_failed c st = st\<lparr>objs := (objs st)[c := (objs st ! c)\<lparr>c_state := Failed\<rparr>]\<rparr>"

definition engine_closed :: "core_id \<Rightarrow> store \<Rightarrow> store" where
  "engine_closed c st =
     st\<lparr>objs := (objs st)[c := (objs st ! c)\<lparr>c_closed := True, c_closing := tl (c_closing (objs st ! c))\<rparr>]\<rparr>"

definition run_ready_callbacks :: "core_id \<Rightarrow> store \<Rightarrow> store" where
  "run_ready_callbacks c st =
     foldl (\<lambda>a (c', s). ready_callback c' s (c_state (objs st ! c) = Failed) a)
       (st\<lparr>ready_cbs := filter (\<lambda>(c', s). c' \<noteq> c) (ready_cbs st)\<rparr>)
       (filter (\<lambda>(c', s). c' = c) (ready_cbs st))"

definition step :: "env \<Rightarrow> event \<Rightarrow> store \<Rightarrow> store" where
  "step E ev st =
     (case ev of
        CallGet a fresh \<Rightarrow> (case get E fresh a st of Inl e \<Rightarrow> st | Inr (c, st') \<Rightarrow> st')
      | CallDefault a fresh \<Rightarrow> (case default_store E fresh a st of Inl e \<Rightarrow> st | Inr (c, st') \<Rightarrow> st')
      | CallReplicate dk ro \<Rightarrow> (case replicate_store dk ro st of Inl e \<Rightarrow> st | Inr (s, st') \<Rightarrow> st')
      | CallClose \<Rightarrow> close st
      | CoreReady c k \<Rightarrow>
          (if c < length (objs st) \<and> c_state (objs st ! c) = Pending
           then ready_listener E c (engine_opened E c k st) else st)
      | CoreError c \<Rightarrow>
          (if c < length (objs st) \<and> c_state (objs st ! c) = Pending
           then errorListener c (engine_failed c st) else st)
      | ReadyCallbacks c \<Rightarrow>
          (if c < length (objs st) \<and> c_state (objs st ! c) \<noteq> Pending
           then run_ready_callbacks c st else st)
      | StreamFeed s dkey \<Rightarrow>
          (if s < length (streams st)
           then (case get E ([], []) (Opts (no_opts\<lparr>o_discoveryKey := Some (Buf dkey)\<rparr>)) st of
                   Inl e \<Rightarrow> st | Inr (c, st') \<Rightarrow> st')
           else st)
      | StreamFinish s \<Rightarrow> (if s < length (streams st) then replicate_onclose s st else st)
      | StreamEnd s \<Rightarrow> (if s < length (streams st) then replicate_onclose s st else st)
      | StreamClose s \<Rightarrow> (if s < length (streams st) then replicate_onclose s st else st)
      | CoreClosed c err \<Rightarrow>
          (if c < length (objs st) \<and> c_closing (objs st ! c) \<noteq> []
           then close_onclose (hd (c_closing (objs st ! c))) err (engine_closed c st) else st))"

definition run :: "env \<Rightarrow> event list \<Rightarrow> store \<Rightarrow> store" where
  "run E evs st = foldl (\<lambda>a ev. step E ev a) st evs"

subsection \<open>Well-formed stores\<close>

text \<open>
  What holds of every store reached from a new one (\<open>wf_run\<close> below): handles name
  objects that exist, a registered core has been opened, no stream lists a core twice,
  \<^verbatim>\<open>errored\<close> is only set on a core that failed to open, and a pending \<^verbatim>\<open>close\<close> callback
  belongs to a \<^verbatim>\<open>close\<close> call that was made.
\<close>

definition wf :: "store \<Rightarrow> bool" where
  "wf st \<longleftrightarrow>
     (\<forall>c \<in> snd ` set (cores st). c < length (objs st) \<and> c_state (objs st ! c) = Opened) \<and>
     (\<forall>c \<in> fst ` set (ready_cbs st). c < length (objs st)) \<and>
     (\<forall>s < length (streams st). \<forall>c \<in> set (s_feeds (streams st ! s)). c < length (objs st)) \<and>
     (\<forall>d. defaultCore st = Some d \<longrightarrow> d < length (objs st)) \<and>
     (\<forall>s \<in> set (replicationStreams st). s < length (streams st)) \<and>
     (\<forall>s < length (streams st). distinct (s_feeds (streams st ! s))) \<and>
     (\<forall>c < length (objs st). c_errored (objs st ! c) \<longrightarrow> c_state (objs st ! c) = Failed) \<and>
     (\<forall>c < length (objs st). \<forall>op \<in> set (c_closing (objs st ! c)). op < length (closes st))"






text \<open>
  A call of \<^verbatim>\<open>close\<close> that has not called back and that no core will answer: its
  \<^verbatim>\<open>onclose\<close> is registered with no core.
\<close>

definition silent :: "close_id \<Rightarrow> store \<Rightarrow> bool" where
  "silent op st \<longleftrightarrow>
     op < length (closes st) \<and> cb_calls (closes st ! op) = [] \<and>
     (\<forall>c < length (objs st). op \<notin> set (c_closing (objs st ! c)))"

subsection \<open>A concrete environment\<close>

text \<open>
  Small stand-ins for the library functions, for running the store on examples: keys
  are lists of numbers, the discovery key adds one to each byte, the text encoding
  writes byte 0 as \<open>a\<close>, byte 1 as \<open>b\<close> and any other as \<open>c\<close>, and the text \<open>bad\<close> is
  malformed.
\<close>

definition example_env :: env where
  "example_env = \<lparr>crypto_discoveryKey = map Suc,
     dat_encode = map (\<lambda>n. if n = 0 then CHR ''a'' else if n = 1 then CHR ''b'' else CHR ''c''),
     dat_decode = (\<lambda>s. if s = ''bad'' then None else Some (map (\<lambda>c. if c = CHR ''a'' then 0 else 1) s))\<rparr>"

section \<open>Auxiliary facts\<close>

text \<open>The loops of the store as single updates, and what each handler leaves alone.\<close>

lemmas prim_defs = replicateCore_def core_replicate_def ready_callback_def destroy_def
  core_close_def reset_def close_onclose_def engine_opened_def engine_failed_def
  engine_closed_def errorListener_def replicate_onclose_def

lemma foldl_frame: "(\<And>a x. g (f a x) = g a) \<Longrightarrow> g (foldl f a xs) = g a"
  by (induction xs arbitrary: a) simp_all

lemma nth_update_total: "xs[i := x] ! j = (if i = j \<and> i < length xs then x else xs ! j)"
  by (cases "i < length xs") (auto simp: nth_list_update list_update_beyond)

lemma map_update_same: "g (h (xs ! i)) = g (xs ! i) \<Longrightarrow> map g (xs[i := h (xs ! i)]) = map g xs"
  by (cases "i < length xs") (simp_all add: map_update list_update_same_conv list_update_beyond)

lemma foldl_inv: "P a \<Longrightarrow> (\<And>a x. x \<in> set xs \<Longrightarrow> P a \<Longrightarrow> P (f a x)) \<Longrightarrow> P (foldl f a xs)"
  by (induction xs arbitrary: a) simp_all

lemma set_splice1: "set (splice1 i xs) \<subseteq> set xs"
  by (auto simp: splice1_def Let_def dest: in_set_takeD in_set_dropD)

lemma nth_of_map_eq: "map g xs = map g ys \<Longrightarrow> i < length ys \<Longrightarrow> g (xs ! i) = g (ys ! i)"
  by (metis length_map nth_map)

lemma inject_eq:
  "injectIntoReplicationStreams c st =
     st\<lparr>ready_cbs := ready_cbs st @ map (Pair c) (replicationStreams st)\<rparr>"
proof -
  have fold: "foldl (\<lambda>a s. replicateCore c s a) st' ss = st'\<lparr>ready_cbs := ready_cbs st' @ map (Pair c) ss\<rparr>"
    for ss and st' :: store
    by (induction ss arbitrary: st') (simp_all add: replicateCore_def)
  show ?thesis by (simp add: injectIntoReplicationStreams_def fold)
qed

lemma open_stream_eq:
  "open_stream st =
     (length (streams st),
      st\<lparr>streams := streams st @
            [\<lparr>s_feeds = (case defaultCore st of Some d \<Rightarrow> [d] | None \<Rightarrow> []), s_destroyed = 0, s_closed = False\<rparr>],
         ready_cbs := ready_cbs st @ map (\<lambda>(k, c). (c, length (streams st))) (cores st),
         replicationStreams := replicationStreams st @ [length (streams st)]\<rparr>)"
proof -
  have fold: "foldl (\<lambda>a (k, c). replicateCore c s a) st' kcs = st'\<lparr>ready_cbs := ready_cbs st' @ map (\<lambda>(k, c). (c, s)) kcs\<rparr>"
    for s kcs and st' :: store
    by (induction kcs arbitrary: st') (simp_all add: replicateCore_def split: prod.splits)
  show ?thesis by (simp add: open_stream_def Let_def fold)
qed

lemma replicate_store_eq:
  "replicate_store dk ro st =
     (if defaultCore st = None then
        (case (case dk of OptsArg r \<Rightarrow> Some r | _ \<Rightarrow> ro) of
           None \<Rightarrow> Inl TypeError
         | Some r \<Rightarrow> if encrypt r then Inl ConfigurationError else Inr (open_stream st))
      else Inr (open_stream st))"
proof -
  have nokey: "replicate_store NoKey r st =
     (if defaultCore st = None then
        (case r of None \<Rightarrow> Inl TypeError
         | Some r \<Rightarrow> if encrypt r then Inl ConfigurationError else Inr (open_stream st))
      else Inr (open_stream st))" for r
    by (subst replicate_store.simps) simp
  show ?thesis
    by (subst replicate_store.simps) (cases dk; simp add: nokey)
qed

lemma defaultCore_get: "get E fresh a st = Inr (c, st') \<Longrightarrow> defaultCore st' = defaultCore st"
  by (auto simp: get_def Let_def inject_eq split: sum.splits option.splits prod.splits)

lemma defaultCore_replicate: "replicate_store dk ro st = Inr (s, st') \<Longrightarrow> defaultCore st' = defaultCore st"
  by (auto simp: replicate_store_eq open_stream_eq split: if_splits option.splits)

lemma defaultCore_close: "defaultCore (close st) = defaultCore st"
  unfolding close_def Let_def
  by (simp add: foldl_frame [where g = defaultCore] prim_defs split: prod.splits)

lemma defaultCore_run_ready_callbacks: "defaultCore (run_ready_callbacks c st) = defaultCore st"
  unfolding run_ready_callbacks_def
  by (simp add: foldl_frame [where g = defaultCore] prim_defs split: prod.splits)

lemma defaultCore_ready_listener: "defaultCore (ready_listener E c st) = defaultCore st"
  by (simp add: ready_listener_def inject_eq Let_def)

lemma default_store_set: "defaultCore st = Some d \<Longrightarrow> default_store E fresh a st = Inr (d, st)"
  by (simp add: default_store_def)

lemma defaultCore_step: "defaultCore st = Some d \<Longrightarrow> defaultCore (step E ev st) = Some d"
  by (cases ev)
     (auto simp: step_def default_store_set defaultCore_close defaultCore_run_ready_callbacks
        defaultCore_ready_listener prim_defs Let_def
        dest: defaultCore_get defaultCore_replicate split: sum.splits prod.splits option.splits)

lemma defaultCore_run: "defaultCore st = Some d \<Longrightarrow> defaultCore (run E evs st) = Some d"
  unfolding run_def by (induction evs arbitrary: st) (simp_all add: defaultCore_step)

lemma ready_callback_frame:
  "objs (ready_callback c s err st) = objs st"
  "cores (ready_callback c s err st) = cores st"
  "replicationStreams (ready_callback c s err st) = replicationStreams st"
  "closes (ready_callback c s err st) = closes st"
  "ready_cbs (ready_callback c s err st) = ready_cbs st"
  "length (streams (ready_callback c s err st)) = length (streams st)"
  by (simp_all add: prim_defs)

lemma ready_callback_feeds:
  assumes "\<forall>i < length (streams st). Q (s_feeds (streams st ! i))"
    and "\<And>fs. Q fs \<Longrightarrow> c \<notin> set fs \<Longrightarrow> Q (fs @ [c])"
  shows "\<forall>i < length (streams (ready_callback c s err st)). Q (s_feeds (streams (ready_callback c s err st) ! i))"
  using assms by (auto simp: prim_defs nth_update_total)

lemma run_ready_callbacks_frame:
  "objs (run_ready_callbacks c st) = objs st"
  "cores (run_ready_callbacks c st) = cores st"
  "replicationStreams (run_ready_callbacks c st) = replicationStreams st"
  "closes (run_ready_callbacks c st) = closes st"
  "ready_cbs (run_ready_callbacks c st) = filter (\<lambda>(c', s). c' \<noteq> c) (ready_cbs st)"
  "length (streams (run_ready_callbacks c st)) = length (streams st)"
  unfolding run_ready_callbacks_def
  by (simp_all add: foldl_frame [where g = objs] foldl_frame [where g = cores]
      foldl_frame [where g = replicationStreams] foldl_frame [where g = closes]
      foldl_frame [where g = ready_cbs] foldl_frame [where g = "\<lambda>a. length (streams a)"]
      ready_callback_frame split: prod.splits)

lemma run_ready_callbacks_feeds:
  assumes "\<forall>i < length (streams st). Q (s_feeds (streams st ! i))"
    and "\<And>fs. Q fs \<Longrightarrow> c \<notin> set fs \<Longrightarrow> Q (fs @ [c])"
  shows "\<forall>i < length (streams (run_ready_callbacks c st)).
           Q (s_feeds (streams (run_ready_callbacks c st) ! i))"
  unfolding run_ready_callbacks_def
proof (rule foldl_inv [where P = "\<lambda>a. \<forall>i < length (streams a). Q (s_feeds (streams a ! i))"])
  show "\<forall>i < length (streams (st\<lparr>ready_cbs := filter (\<lambda>(c', s). c' \<noteq> c) (ready_cbs st)\<rparr>)).
     Q (s_feeds (streams (st\<lparr>ready_cbs := filter (\<lambda>(c', s). c' \<noteq> c) (ready_cbs st)\<rparr>) ! i))"
    using assms(1) by simp
next
  fix a :: store and x
  assume x: "x \<in> set (filter (\<lambda>(c', s). c' = c) (ready_cbs st))"
    and a: "\<forall>i < length (streams a). Q (s_feeds (streams a ! i))"
  from x obtain s where "x = (c, s)" by auto
  with ready_callback_feeds [OF a assms(2)]
  show "\<forall>i < length (streams (case x of (c', s) \<Rightarrow> ready_callback c' s (c_state (objs st ! c) = Failed) a)).
    Q (s_feeds (streams (case x of (c', s) \<Rightarrow> ready_callback c' s (c_state (objs st ! c) = Failed) a) ! i))"
    by simp
qed


lemma close_frame:
  "cores (close st) = cores st"
  "replicationStreams (close st) = replicationStreams st"
  "ready_cbs (close st) = ready_cbs st"
  "closes (close st) = closes st @ [\<lparr>remaining = int (length (cores st)), cb_calls = []\<rparr>]"
  "length (streams (close st)) = length (streams st)"
  "length (objs (close st)) = length (objs st)"
  unfolding close_def Let_def
  by (simp_all add: foldl_frame [where g = cores] foldl_frame [where g = replicationStreams]
      foldl_frame [where g = ready_cbs] foldl_frame [where g = closes]
      foldl_frame [where g = "\<lambda>a. length (streams a)"]
      foldl_frame [where g = "\<lambda>a. length (objs a)"]
      prim_defs split: prod.splits)

lemma close_maps:
  "map s_feeds (streams (close st)) = map s_feeds (streams st)"
  "map c_state (objs (close st)) = map c_state (objs st)"
  "map c_errored (objs (close st)) = map c_errored (objs st)"
  "map c_discovery (objs (close st)) = map c_discovery (objs st)"
  unfolding close_def Let_def
  by (simp_all add: 
      foldl_frame [where g = "\<lambda>a. map s_feeds (streams a)"]
      foldl_frame [where g = "\<lambda>a. map c_state (objs a)"]
      foldl_frame [where g = "\<lambda>a. map c_errored (objs a)"]
      foldl_frame [where g = "\<lambda>a. map c_discovery (objs a)"]
      prim_defs map_update_same split: prod.splits)

lemma close_nth:
  "s < length (streams st) \<Longrightarrow> s_feeds (streams (close st) ! s) = s_feeds (streams st ! s)"
  "c < length (objs st) \<Longrightarrow> c_state (objs (close st) ! c) = c_state (objs st ! c)"
  "c < length (objs st) \<Longrightarrow> c_errored (objs (close st) ! c) = c_errored (objs st ! c)"
  "c < length (objs st) \<Longrightarrow> c_discovery (objs (close st) ! c) = c_discovery (objs st ! c)"
  by (simp_all add: nth_of_map_eq [OF close_maps(1)] nth_of_map_eq [OF close_maps(2)]
      nth_of_map_eq [OF close_maps(3)] nth_of_map_eq [OF close_maps(4)])

lemma close_closing:
  assumes "\<forall>c < length (objs st). \<forall>op \<in> set (c_closing (objs st ! c)). op \<in> A"
    and "length (closes st) \<in> A"
  shows "\<forall>c < length (objs (close st)). \<forall>op \<in> set (c_closing (objs (close st) ! c)). op \<in> A"
  unfolding close_def Let_def
proof (rule foldl_inv [where P = "\<lambda>a. \<forall>c < length (objs a). \<forall>op \<in> set (c_closing (objs a ! c)). op \<in> A"])
  show "\<forall>c < length (objs (foldl (\<lambda>a s. destroy s a)
          (st\<lparr>closes := closes st @ [\<lparr>remaining = int (length (cores st)), cb_calls = []\<rparr>]\<rparr>)
          (replicationStreams (st\<lparr>closes := closes st @ [\<lparr>remaining = int (length (cores st)), cb_calls = []\<rparr>]\<rparr>)))).
        \<forall>op\<in>set (c_closing (objs (foldl (\<lambda>a s. destroy s a)
          (st\<lparr>closes := closes st @ [\<lparr>remaining = int (length (cores st)), cb_calls = []\<rparr>]\<rparr>)
          (replicationStreams (st\<lparr>closes := closes st @ [\<lparr>remaining = int (length (cores st)), cb_calls = []\<rparr>]\<rparr>))) ! c)). op \<in> A"
    by (simp add: foldl_frame [where g = objs] prim_defs assms(1))
next
  fix a :: store and kc :: "string \<times> core_id"
  assume a: "\<forall>c < length (objs a). \<forall>op\<in>set (c_closing (objs a ! c)). op \<in> A"
  obtain k c where kc: "kc = (k, c)" by (cases kc)
  let ?a' = "core_close c (length (closes st)) a"
  have "\<forall>c < length (objs ?a'). \<forall>op\<in>set (c_closing (objs ?a' ! c)). op \<in> A"
    using a assms(2) by (auto simp: core_close_def nth_update_total)
  with a kc
  show "\<forall>c' < length (objs (case kc of (k, c) \<Rightarrow>
            if \<not> c_closed (objs a ! c) then core_close c (length (closes st)) a else a)).
        \<forall>op\<in>set (c_closing (objs (case kc of (k, c) \<Rightarrow>
            if \<not> c_closed (objs a ! c) then core_close c (length (closes st)) a else a) ! c')). op \<in> A"
    by simp
qed

subsection \<open>Every reachable store is well-formed\<close>

lemma wf_Corestore: "wf (Corestore sid)"
  by (simp add: wf_def Corestore_def)

lemma snd_set_update: "snd ` set (AList.update k v al) \<subseteq> insert v (snd ` set al)"
  by (induction al) auto

lemma get_cases:
  assumes "get E fresh a st = Inr (c, st')"
  shows "(c \<in> snd ` set (cores st) \<and> st' = injectIntoReplicationStreams c st) \<or>
         (c = length (objs st) \<and> (\<exists>x. st' = st\<lparr>objs := objs st @ [x]\<rparr> \<and> c_state x = Pending \<and> \<not> c_errored x
             \<and> c_discovery x = truthy_key (o_discoveryKey (arg_opts a)) \<and> c_closing x = []
             \<and> c_createIfMissing x = (\<not> truthy_key (o_discoveryKey (arg_opts a)))))"
  using assms
  by (auto simp: get_def Let_def new_core_def split: sum.splits option.splits prod.splits
      dest!: map_of_SomeD intro!: image_eqI [where f = snd])

lemma wf_inject: "wf st \<Longrightarrow> c \<in> snd ` set (cores st) \<Longrightarrow> wf (injectIntoReplicationStreams c st)"
  by (auto simp: wf_def inject_eq)

lemma wf_new_core:
  "wf st \<Longrightarrow> c_state x = Pending \<Longrightarrow> \<not> c_errored x \<Longrightarrow> c_closing x = [] \<Longrightarrow> wf (st\<lparr>objs := objs st @ [x]\<rparr>)"
  unfolding wf_def by (auto simp: nth_append less_Suc_eq)

lemma wf_get: "wf st \<Longrightarrow> get E fresh a st = Inr (c, st') \<Longrightarrow> wf st' \<and> c < length (objs st')"
  by (auto dest!: get_cases simp: wf_inject wf_new_core) (auto simp: wf_def inject_eq)


lemma wf_default: "wf st \<Longrightarrow> default_store E fresh a st = Inr (c, st') \<Longrightarrow> wf st'"
proof -
  assume wf: "wf st" and d: "default_store E fresh a st = Inr (c, st')"
  show "wf st'"
  proof (cases "defaultCore st")
    case (Some d')
    with d wf show ?thesis by (simp add: default_store_def)
  next
    case None
    with d obtain co st1 where g: "get E fresh (Opts co) st = Inr (c, st1)"
      and st': "st' = st1\<lparr>defaultCore := Some c\<rparr>"
      by (auto simp: default_store_def Let_def split: sum.splits)
    from wf_get [OF wf g] have "wf st1" "c < length (objs st1)" by simp_all
    then show ?thesis unfolding st' wf_def by simp
  qed
qed

lemma wf_open_stream: "wf st \<Longrightarrow> wf (snd (open_stream st))"
  unfolding wf_def open_stream_eq
  by (auto simp: nth_append less_Suc_eq split: option.splits)

lemma wf_replicate: "wf st \<Longrightarrow> replicate_store dk ro st = Inr (s, st') \<Longrightarrow> wf st'"
  using wf_open_stream [of st]
  by (auto simp: replicate_store_eq split: if_splits option.splits)

lemma wf_close: "wf st \<Longrightarrow> wf (close st)"
proof -
  assume wf: "wf st"
  then have "\<forall>c < length (objs st). \<forall>op \<in> set (c_closing (objs st ! c)). op \<in> {..< Suc (length (closes st))}"
    by (auto simp: wf_def less_Suc_eq)
  from close_closing [OF this]
  have "\<forall>c<length (objs (close st)). \<forall>op\<in>set (c_closing (objs (close st) ! c)). op < length (closes (close st))"
    by (simp add: close_frame)
  with wf show ?thesis
    unfolding wf_def by (simp add: close_frame close_nth defaultCore_close)
qed


lemma ready_eq:
  assumes "c < length (objs st)" "\<not> c_errored (objs st ! c)"
  shows "ready_listener E c (engine_opened E c k st) =
     st\<lparr>objs := (objs st)[c := (objs st ! c)\<lparr>c_state := Opened, c_key := Some k,
                                          c_discoveryKey := Some (crypto_discoveryKey E k)\<rparr>],
        feed_events := feed_events st @ [c],
        cores := AList.update (dat_encode E (crypto_discoveryKey E k)) c
                   (AList.update (dat_encode E k) c (cores st)),
        ready_cbs := ready_cbs st @ map (Pair c) (replicationStreams st)\<rparr>"
  using assms by (simp add: ready_listener_def engine_opened_def Let_def inject_eq)

lemma wf_ready: 
  assumes "wf st" "c < length (objs st)" "c_state (objs st ! c) = Pending"
  shows "wf (ready_listener E c (engine_opened E c k st))"
proof -
  from assms have ne: "\<not> c_errored (objs st ! c)" by (auto simp: wf_def)
  have v: "x = c \<or> x \<in> snd ` set al" if "x \<in> snd ` set (AList.update k1 c (AList.update k2 c al))"
    for x k1 k2 and al :: "(string \<times> core_id) list"
    using that snd_set_update [of k1 c "AList.update k2 c al"] snd_set_update [of k2 c al] by blast
  let ?st = "ready_listener E c (engine_opened E c k st)"
  have 1: "\<forall>x \<in> snd ` set (cores ?st). x < length (objs ?st) \<and> c_state (objs ?st ! x) = Opened"
  proof
    fix x assume "x \<in> snd ` set (cores ?st)"
    then have "x = c \<or> x \<in> snd ` set (cores st)"
      unfolding ready_eq [OF assms(2) ne] by (auto dest!: v)
    with assms show "x < length (objs ?st) \<and> c_state (objs ?st ! x) = Opened"
      unfolding ready_eq [OF assms(2) ne] by (auto simp: wf_def nth_update_total)
  qed
  have 2: "\<forall>x \<in> fst ` set (ready_cbs ?st). x < length (objs ?st)"
    using assms unfolding ready_eq [OF assms(2) ne] by (auto simp: wf_def)
  have 3: "\<forall>s < length (streams ?st). \<forall>x \<in> set (s_feeds (streams ?st ! s)). x < length (objs ?st)"
    using assms unfolding ready_eq [OF assms(2) ne] by (simp add: wf_def)
  have 4: "\<forall>d. defaultCore ?st = Some d \<longrightarrow> d < length (objs ?st)"
    using assms unfolding ready_eq [OF assms(2) ne] by (simp add: wf_def)
  have 5: "\<forall>s \<in> set (replicationStreams ?st). s < length (streams ?st)"
    using assms unfolding ready_eq [OF assms(2) ne] by (simp add: wf_def)
  have 6: "\<forall>s < length (streams ?st). distinct (s_feeds (streams ?st ! s))"
    using assms unfolding ready_eq [OF assms(2) ne] by (simp add: wf_def)
  have 7: "\<forall>x < length (objs ?st). c_errored (objs ?st ! x) \<longrightarrow> c_state (objs ?st ! x) = Failed"
    using assms ne unfolding ready_eq [OF assms(2) ne] by (auto simp: wf_def nth_update_total)
  have 8: "\<forall>x < length (objs ?st). \<forall>op \<in> set (c_closing (objs ?st ! x)). op < length (closes ?st)"
    using assms unfolding ready_eq [OF assms(2) ne] by (auto simp: wf_def nth_update_total)
  from 1 2 3 4 5 6 7 8 show ?thesis unfolding wf_def by blast
qed

lemma wf_error:
  assumes "wf st" "c < length (objs st)" "c_state (objs st ! c) = Pending"
  shows "wf (errorListener c (engine_failed c st))"
  using assms unfolding wf_def errorListener_def engine_failed_def
  by (auto simp: nth_update_total)

lemma wf_callbacks:
  assumes "wf st" "c < length (objs st)"
  shows "wf (run_ready_callbacks c st)"
proof -
  have 1: "\<forall>i < length (streams (run_ready_callbacks c st)).
      (\<forall>j \<in> set (s_feeds (streams (run_ready_callbacks c st) ! i)). j < length (objs st))"
    using assms by (intro run_ready_callbacks_feeds) (auto simp: wf_def)
  have 2: "\<forall>i < length (streams (run_ready_callbacks c st)).
      distinct (s_feeds (streams (run_ready_callbacks c st) ! i))"
    using assms by (intro run_ready_callbacks_feeds) (auto simp: wf_def)
  from assms 1 2 show ?thesis
    unfolding wf_def by (auto simp: run_ready_callbacks_frame defaultCore_run_ready_callbacks)
qed


lemma wf_onclose: "wf st \<Longrightarrow> wf (replicate_onclose s st)"
  unfolding wf_def replicate_onclose_def
  by (auto simp: nth_update_total dest: subsetD [OF set_splice1])

lemma in_set_tl: "x \<in> set (tl xs) \<Longrightarrow> x \<in> set xs"
  by (cases xs) auto

lemma wf_closed:
  assumes "wf st" "c < length (objs st)"
  shows "wf (close_onclose op err (engine_closed c st))"
  using assms unfolding wf_def close_onclose_def reset_def engine_closed_def Let_def
  by (auto simp: nth_update_total split: option.splits dest: in_set_tl)

lemma wf_step: "wf st \<Longrightarrow> wf (step E ev st)"
  by (cases ev)
     (auto simp: step_def wf_close wf_ready wf_error wf_callbacks wf_onclose wf_closed
        split: sum.splits prod.splits dest: wf_get wf_default wf_replicate)

lemma wf_run: "wf (run E evs (Corestore sid))"
proof -
  have "wf st \<Longrightarrow> wf (run E evs st)" for st
    unfolding run_def by (induction evs arbitrary: st) (simp_all add: wf_step)
  then show ?thesis by (simp add: wf_Corestore)
qed

subsection \<open>A core the store holds nowhere stays so until it is opened\<close>



























subsection \<open>Attachment is kept and completed\<close>

lemma count_list_distinct: "distinct xs \<Longrightarrow> count_list xs x = (if x \<in> set xs then 1 else 0)"
  by (induction xs) auto

















subsection \<open>Requests that hit the registry\<close>




subsection \<open>A close call that no core answers\<close>

lemma get_closing:
  assumes "get E fresh a st = Inr (c', st')"
  shows "closes st' = closes st"
    and "c < length (objs st') \<Longrightarrow> x \<in> set (c_closing (objs st' ! c)) \<Longrightarrow>
           c < length (objs st) \<and> x \<in> set (c_closing (objs st ! c))"
  using assms
  by (auto dest!: get_cases simp: inject_eq nth_append less_Suc_eq split: if_splits)

lemma silent_get: "silent op st \<Longrightarrow> get E fresh a st = Inr (c', st') \<Longrightarrow> silent op st'"
  unfolding silent_def by (auto simp: get_closing(1) dest: get_closing(2))

lemma silent_close: "silent op st \<Longrightarrow> silent op (close st)"
proof -
  assume s: "silent op st"
  then have "\<forall>c < length (objs st). \<forall>x \<in> set (c_closing (objs st ! c)). x \<in> {x. x \<noteq> op}"
    by (auto simp: silent_def)
  moreover from s have "length (closes st) \<in> {x. x \<noteq> op}" by (auto simp: silent_def)
  ultimately have "\<forall>c < length (objs (close st)). \<forall>x \<in> set (c_closing (objs (close st) ! c)). x \<in> {x. x \<noteq> op}"
    by (rule close_closing)
  with s show ?thesis by (auto simp: silent_def close_frame nth_append)
qed

lemma silent_step: "silent op st \<Longrightarrow> silent op (step E ev st)"
proof (cases ev)
  case (CallGet a fresh)
  assume "silent op st"
  with CallGet show ?thesis by (auto simp: step_def split: sum.splits dest: silent_get)
next
  case (CallDefault a fresh)
  assume s: "silent op st"
  have "silent op (st'\<lparr>defaultCore := d\<rparr>) = silent op st'" for st' d
    by (simp add: silent_def)
  with s CallDefault show ?thesis
    by (auto simp: step_def default_store_def Let_def split: sum.splits option.splits dest: silent_get)
next
  case (CallReplicate dk ro)
  assume "silent op st"
  with CallReplicate show ?thesis
    by (auto simp: step_def silent_def replicate_store_eq open_stream_eq
        split: sum.splits option.splits if_splits)
next
  case CallClose
  assume "silent op st"
  with CallClose show ?thesis by (simp add: step_def silent_close)
next
  case (CoreReady c' k)
  assume "silent op st"
  with CoreReady show ?thesis
    by (auto simp: step_def silent_def ready_listener_def engine_opened_def Let_def inject_eq
        nth_update_total)
next
  case (CoreError c')
  assume "silent op st"
  with CoreError show ?thesis
    by (auto simp: step_def silent_def errorListener_def engine_failed_def nth_update_total)
next
  case (ReadyCallbacks c')
  assume "silent op st"
  with ReadyCallbacks show ?thesis by (simp add: step_def silent_def run_ready_callbacks_frame)
next
  case (StreamFeed s' dkey)
  assume "silent op st"
  with StreamFeed show ?thesis by (auto simp: step_def split: sum.splits dest: silent_get)
next
  case (StreamFinish s')
  assume "silent op st"
  with StreamFinish show ?thesis by (auto simp: step_def silent_def replicate_onclose_def)
next
  case (StreamEnd s')
  assume "silent op st"
  with StreamEnd show ?thesis by (auto simp: step_def silent_def replicate_onclose_def)
next
  case (StreamClose s')
  assume "silent op st"
  with StreamClose show ?thesis by (auto simp: step_def silent_def replicate_onclose_def)
next
  case (CoreClosed c' err)
  assume s: "silent op st"
  show ?thesis
  proof (cases "c' < length (objs st) \<and> c_closing (objs st ! c') \<noteq> []")
    case False
    with s CoreClosed show ?thesis by (auto simp: step_def)
  next
    case True
    then have "hd (c_closing (objs st ! c')) \<in> set (c_closing (objs st ! c'))" by simp
    with s True have ne: "hd (c_closing (objs st ! c')) \<noteq> op" by (auto simp: silent_def)
    from s True ne CoreClosed show ?thesis
      by (auto simp: step_def silent_def close_onclose_def reset_def engine_closed_def Let_def
          nth_update_total split: option.splits dest: in_set_tl)
  qed
qed

lemma silent_run: "silent op st \<Longrightarrow> silent op (run E evs st)"
  unfolding run_def by (induction evs arbitrary: st) (simp_all add: silent_step)

lemma close_no_cores:
  assumes "wf st" "cores st = []"
  shows "silent (length (closes st)) (close st)"
proof -
  have "objs (close st) = objs st"
    using assms(2) unfolding close_def Let_def
    by (simp add: foldl_frame [where g = cores] foldl_frame [where g = objs] destroy_def)
  with assms(1) show ?thesis
    by (auto simp: silent_def close_frame wf_def)
qed

subsection \<open>Removing from the active list, and destroying streams\<close>

lemma splice1_nat: "splice1 (int n) xs = take n xs @ drop (Suc n) xs"
  by (cases "n \<le> length xs") (simp_all add: splice1_def Let_def min_def)

lemma take_drop_remove1:
  "x \<in> set xs \<Longrightarrow>
     take (length (takeWhile (\<lambda>y. y \<noteq> x) xs)) xs @
     drop (Suc (length (takeWhile (\<lambda>y. y \<noteq> x) xs))) xs = remove1 x xs"
  by (induction xs) auto

lemma splice1_indexOf: "x \<in> set xs \<Longrightarrow> splice1 (indexOf xs x) xs = remove1 x xs"
  by (simp add: indexOf_def splice1_nat take_drop_remove1)

lemma destroy_fold_count:
  "s < length (streams a) \<Longrightarrow>
     length (streams (foldl (\<lambda>a s. destroy s a) a ss)) = length (streams a) \<and>
     s_destroyed (streams (foldl (\<lambda>a s. destroy s a) a ss) ! s) =
       s_destroyed (streams a ! s) + count_list ss s"
  by (induction ss arbitrary: a) (auto simp: destroy_def nth_update_total)

lemma close_destroyed:
  assumes "s < length (streams st)"
  shows "s_destroyed (streams (close st) ! s) =
           s_destroyed (streams st ! s) + count_list (replicationStreams st) s"
proof -
  let ?st1 = "st\<lparr>closes := closes st @ [\<lparr>remaining = int (length (cores st)), cb_calls = []\<rparr>]\<rparr>"
  let ?st2 = "foldl (\<lambda>a s. destroy s a) ?st1 (replicationStreams ?st1)"
  have "streams (close st) = streams ?st2"
    unfolding close_def Let_def
    by (simp add: foldl_frame [where g = streams] core_close_def split: prod.splits)
  with destroy_fold_count [of s ?st1 "replicationStreams ?st1"] assms show ?thesis by simp
qed

lemma streams_step_cases:
  "replicationStreams (step E ev st) = replicationStreams st \<or>
   replicationStreams (step E ev st) = replicationStreams st @ [length (streams st)] \<or>
   (\<exists>i. replicationStreams (step E ev st) = splice1 i (replicationStreams st)) \<or>
   replicationStreams (step E ev st) = []"
proof (cases ev)
  case (CallGet a fresh)
  then show ?thesis by (auto simp: step_def inject_eq split: sum.splits dest!: get_cases)
next
  case (CallDefault a fresh)
  then show ?thesis
    by (auto simp: step_def default_store_def Let_def inject_eq split: sum.splits option.splits
        dest!: get_cases)
next
  case (CallReplicate dk ro)
  then show ?thesis
    by (auto simp: step_def replicate_store_eq open_stream_eq split: sum.splits option.splits if_splits)
next
  case CallClose
  then show ?thesis by (simp add: step_def close_frame)
next
  case (CoreReady c' k)
  then show ?thesis
    by (auto simp: step_def ready_listener_def engine_opened_def Let_def inject_eq)
next
  case (CoreError c')
  then show ?thesis by (auto simp: step_def errorListener_def engine_failed_def)
next
  case (ReadyCallbacks c')
  then show ?thesis by (simp add: step_def run_ready_callbacks_frame)
next
  case (StreamFeed s' dkey)
  then show ?thesis by (auto simp: step_def inject_eq split: sum.splits dest!: get_cases)
next
  case (StreamFinish s')
  then show ?thesis by (auto simp: step_def replicate_onclose_def)
next
  case (StreamEnd s')
  then show ?thesis by (auto simp: step_def replicate_onclose_def)
next
  case (StreamClose s')
  then show ?thesis by (auto simp: step_def replicate_onclose_def)
next
  case (CoreClosed c' err)
  then show ?thesis
    by (auto simp: step_def close_onclose_def reset_def engine_closed_def Let_def split: option.splits)
qed

lemma distinct_splice1: "distinct xs \<Longrightarrow> distinct (splice1 i xs)"
proof -
  assume d: "distinct xs"
  have "distinct (take n xs @ drop (Suc n) xs)" for n
  proof -
    have "set (take n xs) \<inter> set (drop (Suc n) xs) \<subseteq> set (take n xs) \<inter> set (drop n xs)"
      by (auto dest: in_set_dropD [of _ "Suc 0" "drop n xs", simplified])
    with d show ?thesis
      using set_take_disj_set_drop_if_distinct [OF d, of n n] by (auto simp: distinct_take distinct_drop)
  qed
  then show ?thesis by (simp add: splice1_def Let_def)
qed

lemma distinct_streams_step:
  assumes "wf st" "distinct (replicationStreams st)"
  shows "distinct (replicationStreams (step E ev st))"
  using streams_step_cases [of E ev st] assms
  by (auto simp: distinct_splice1 wf_def)

lemma distinct_streams_run: "distinct (replicationStreams (run E evs (Corestore sid)))"
proof -
  have "wf st \<Longrightarrow> distinct (replicationStreams st) \<Longrightarrow> distinct (replicationStreams (run E evs st))" for st
    unfolding run_def
    by (induction evs arbitrary: st) (simp_all add: wf_step distinct_streams_step)
  from this [OF wf_Corestore, of sid] show ?thesis by (simp add: Corestore_def)
qed

section \<open>The key indexer resolves by first match\<close>

text \<open>
  Claim C6. \<^verbatim>\<open>_optsToIndex\<close> takes the first rule that applies: (1) the default flag with
  neither key nor secretKey gives the marker \<open>default\<close>; (2) else a name with neither key
  nor secretKey gives the name itself; (3) else a supplied key is decoded if it is text
  and the index is the discovery key derived from it; (4) else a supplied discoveryKey
  is decoded if it is text and is the index itself; (5) else the caller's key pair, or a
  fresh one, is used and the index is the discovery key of its public key. Malformed
  text makes the call fail.
\<close>

theorem optsToIndex_first_match:
  "(o_default co \<and> \<not> truthy_key (o_key co) \<and> o_secretKey co = None \<longrightarrow>
      (\<exists>key sk. optsToIndex E fresh co = Inr (IdxStr ''default'', key, sk))) \<and>
   (\<not> o_default co \<and> truthy_name (o_name co) \<and> \<not> truthy_key (o_key co) \<and> o_secretKey co = None \<longrightarrow>
      (\<exists>key sk. optsToIndex E fresh co = Inr (IdxStr (the (o_name co)), key, sk))) \<and>
   (truthy_key (o_key co) \<longrightarrow>
      (case decode_idx E (the (o_key co)) of
         Inl e \<Rightarrow> optsToIndex E fresh co = Inl e
       | Inr b \<Rightarrow> \<exists>sk. optsToIndex E fresh co = Inr (IdxBuf (crypto_discoveryKey E b), o_key co, sk))) \<and>
   (\<not> truthy_key (o_key co) \<and> (\<not> o_default co \<and> \<not> truthy_name (o_name co) \<or> o_secretKey co \<noteq> None) \<and>
    truthy_key (o_discoveryKey co) \<longrightarrow>
      (case decode_idx E (the (o_discoveryKey co)) of
         Inl e \<Rightarrow> optsToIndex E fresh co = Inl e
       | Inr b \<Rightarrow> \<exists>key sk. optsToIndex E fresh co = Inr (IdxBuf b, key, sk))) \<and>
   (\<not> truthy_key (o_key co) \<and> (\<not> o_default co \<and> \<not> truthy_name (o_name co) \<or> o_secretKey co \<noteq> None) \<and>
    \<not> truthy_key (o_discoveryKey co) \<longrightarrow>
      (\<exists>key. optsToIndex E fresh co =
         Inr (IdxBuf (crypto_discoveryKey E (fst (case o_keyPair co of Some kp \<Rightarrow> kp | None \<Rightarrow> fresh))),
              key, Some (snd (case o_keyPair co of Some kp \<Rightarrow> kp | None \<Rightarrow> fresh)))))"
  by (auto simp: optsToIndex_def Let_def split: sum.splits prod.splits option.splits)

theorem optsToIndex_first_match_witness:
  "optsToIndex example_env ([5], [6]) (no_opts\<lparr>o_default := True, o_name := Some ''logs''\<rparr>)
     = Inr (IdxStr ''default'', None, None) \<and>
   optsToIndex example_env ([5], [6]) (no_opts\<lparr>o_name := Some ''logs'', o_discoveryKey := Some (Buf [7])\<rparr>)
     = Inr (IdxStr ''logs'', None, None) \<and>
   optsToIndex example_env ([5], [6]) (no_opts\<lparr>o_key := Some (Str ''ab''), o_discoveryKey := Some (Buf [7])\<rparr>)
     = Inr (IdxBuf [1, 2], Some (Str ''ab''), None) \<and>
   optsToIndex example_env ([5], [6]) (no_opts\<lparr>o_key := Some (Str ''bad'')\<rparr>) = Inl DecodeError \<and>
   optsToIndex example_env ([5], [6]) (no_opts\<lparr>o_discoveryKey := Some (Str ''ab'')\<rparr>)
     = Inr (IdxBuf [0, 1], None, None) \<and>
   optsToIndex example_env ([5], [6]) (no_opts\<lparr>o_keyPair := Some ([3], [4])\<rparr>)
     = Inr (IdxBuf [4], Some (Buf [3]), Some [4]) \<and>
   optsToIndex example_env ([5], [6]) no_opts = Inr (IdxBuf [6], Some (Buf [5]), Some [6])"
  using optsToIndex_first_match [of "no_opts\<lparr>o_default := True, o_name := Some ''logs''\<rparr>" example_env "([5], [6])"]
    optsToIndex_first_match [of "no_opts\<lparr>o_name := Some ''logs'', o_discoveryKey := Some (Buf [7])\<rparr>" example_env "([5], [6])"]
    optsToIndex_first_match [of "no_opts\<lparr>o_key := Some (Str ''ab''), o_discoveryKey := Some (Buf [7])\<rparr>" example_env "([5], [6])"]
    optsToIndex_first_match [of "no_opts\<lparr>o_key := Some (Str ''bad'')\<rparr>" example_env "([5], [6])"]
    optsToIndex_first_match [of "no_opts\<lparr>o_discoveryKey := Some (Str ''ab'')\<rparr>" example_env "([5], [6])"]
    optsToIndex_first_match [of "no_opts\<lparr>o_keyPair := Some ([3], [4])\<rparr>" example_env "([5], [6])"]
    optsToIndex_first_match [of no_opts example_env "([5], [6])"]
  by (simp add: optsToIndex_def no_opts_def example_env_def truthy_key_def truthy_name_def decode_idx_def)

section \<open>getInfo without a default core\<close>

text \<open>
  Claim C9. \<^verbatim>\<open>getInfo()\<close> should return null fields when no default core is set. On a
  store that has just been constructed it throws instead: \<^verbatim>\<open>this.defaultCore.id\<close> reads
  a property of \<^verbatim>\<open>null\<close>.
\<close>

theorem getInfo_throws_without_default: "getInfo (Corestore sid) = Inl TypeError"
  by (simp add: getInfo_def Corestore_def)

section \<open>The default core\<close>

text \<open>
  Claim C7. \<^verbatim>\<open>default(request)\<close> is idempotent. With a default core set, every call
  returns that handle and changes nothing, whatever the request. With none set, the
  request is marked default-seeking exactly when it has neither a key pair nor a key (a
  flag the caller set stays), it goes to \<^verbatim>\<open>get\<close>, and the handle that \<^verbatim>\<open>get\<close> returns is kept
  as the default core, so that any later call returns it.
\<close>

theorem default_idempotent:
  "(defaultCore st = Some d \<longrightarrow> default_store E fresh a st = Inr (d, st)) \<and>
   (defaultCore st = None \<longrightarrow>
      default_store E fresh a st =
        (case get E fresh
                (Opts ((arg_opts a)\<lparr>o_default := o_default (arg_opts a) \<or>
                   (o_keyPair (arg_opts a) = None \<and> \<not> truthy_key (o_key (arg_opts a)))\<rparr>)) st of
           Inl e \<Rightarrow> Inl e
         | Inr (c, st') \<Rightarrow> Inr (c, st'\<lparr>defaultCore := Some c\<rparr>))) \<and>
   (default_store E fresh a st = Inr (c, st') \<longrightarrow>
      defaultCore st' = Some c \<and> default_store E' fresh' a' st' = Inr (c, st'))"
proof -
  have mark: "(if o_keyPair co = None \<and> \<not> truthy_key (o_key co) then co\<lparr>o_default := True\<rparr> else co)
      = co\<lparr>o_default := o_default co \<or> (o_keyPair co = None \<and> \<not> truthy_key (o_key co))\<rparr>" for co
    by (cases co) auto
  have 1: "defaultCore st = Some d \<longrightarrow> default_store E fresh a st = Inr (d, st)"
    by (simp add: default_store_def)
  have 2: "defaultCore st = None \<longrightarrow>
      default_store E fresh a st =
        (case get E fresh
                (Opts ((arg_opts a)\<lparr>o_default := o_default (arg_opts a) \<or>
                   (o_keyPair (arg_opts a) = None \<and> \<not> truthy_key (o_key (arg_opts a)))\<rparr>)) st of
           Inl e \<Rightarrow> Inl e
         | Inr (c, st') \<Rightarrow> Inr (c, st'\<lparr>defaultCore := Some c\<rparr>))"
    unfolding default_store_def Let_def mark by simp
  have 3: "default_store E fresh a st = Inr (c, st') \<longrightarrow>
      defaultCore st' = Some c \<and> default_store E' fresh' a' st' = Inr (c, st')"
    by (auto simp: default_store_def Let_def split: option.splits sum.splits)
  from 1 2 3 show ?thesis by blast
qed

theorem default_idempotent_witness:
  "default_store example_env ([5], [6]) (Opts no_opts) (Corestore [1]) =
     Inr (0, (Corestore [1])\<lparr>defaultCore := Some 0,
        objs := [new_core (no_opts\<lparr>o_default := True\<rparr>) ''default'' None None]\<rparr>) \<and>
   default_store example_env ([7], [8]) (Buffer [9])
     ((Corestore [1])\<lparr>defaultCore := Some 0,
        objs := [new_core (no_opts\<lparr>o_default := True\<rparr>) ''default'' None None]\<rparr>) =
     Inr (0, (Corestore [1])\<lparr>defaultCore := Some 0,
        objs := [new_core (no_opts\<lparr>o_default := True\<rparr>) ''default'' None None]\<rparr>)"
  using default_idempotent [of "Corestore [1]" 0 example_env "([5], [6])" "Opts no_opts" 0
      "(Corestore [1])\<lparr>defaultCore := Some 0,
        objs := [new_core (no_opts\<lparr>o_default := True\<rparr>) ''default'' None None]\<rparr>"
      example_env "([7], [8])" "Buffer [9]"]
  by (simp add: Corestore_def get_def arg_opts_def optsToIndex_def no_opts_def truthy_key_def
      idxString_def storageRoot_def truthy_name_def)

section \<open>Encrypted replication needs a default core\<close>

text \<open>
  Claim C4. With no default core, \<^verbatim>\<open>replicate\<close> asked to encrypt throws the configuration
  error at once, whether the options are the first or the second argument. After a call
  of \<^verbatim>\<open>default\<close> that returned, and whatever happened to the store since, the same call
  returns a stream.
\<close>

theorem replicate_encrypt_needs_default:
  "(defaultCore st = None \<longrightarrow>
      replicate_store (OptsArg \<lparr>encrypt = True\<rparr>) ro st = Inl ConfigurationError \<and>
      replicate_store NoKey (Some \<lparr>encrypt = True\<rparr>) st = Inl ConfigurationError \<and>
      replicate_store (KeyArg k) (Some \<lparr>encrypt = True\<rparr>) st = Inl ConfigurationError) \<and>
   (default_store E fresh a st = Inr (c, st1) \<longrightarrow>
      (let st2 = run E evs st1 in
       replicate_store (OptsArg \<lparr>encrypt = True\<rparr>) ro st2 = Inr (open_stream st2) \<and>
       replicate_store NoKey (Some \<lparr>encrypt = True\<rparr>) st2 = Inr (open_stream st2) \<and>
       replicate_store (KeyArg k) (Some \<lparr>encrypt = True\<rparr>) st2 = Inr (open_stream st2)))"
proof -
  have "defaultCore (run E evs st1) = Some c" if "default_store E fresh a st = Inr (c, st1)"
  proof -
    from that have "defaultCore st1 = Some c"
      by (auto simp: default_store_def Let_def split: option.splits sum.splits)
    then show ?thesis by (rule defaultCore_run)
  qed
  then show ?thesis by (auto simp: replicate_store_eq Let_def)
qed

theorem replicate_encrypt_needs_default_witness:
  "replicate_store (OptsArg \<lparr>encrypt = True\<rparr>) None (Corestore [1]) = Inl ConfigurationError \<and>
   (let st1 = (Corestore [1])\<lparr>defaultCore := Some 0,
        objs := [new_core (no_opts\<lparr>o_default := True\<rparr>) ''default'' None None]\<rparr> in
    default_store example_env ([5], [6]) (Opts no_opts) (Corestore [1]) = Inr (0, st1) \<and>
    replicate_store (OptsArg \<lparr>encrypt = True\<rparr>) None st1 =
      Inr (0, st1\<lparr>streams := [\<lparr>s_feeds = [0], s_destroyed = 0, s_closed = False\<rparr>],
                 replicationStreams := [0]\<rparr>))"
  using replicate_encrypt_needs_default [of "Corestore [1]" None "Buf []" example_env "([5], [6])" "Opts no_opts" 0
      "(Corestore [1])\<lparr>defaultCore := Some 0,
        objs := [new_core (no_opts\<lparr>o_default := True\<rparr>) ''default'' None None]\<rparr>" "[]"]
  by (simp add: Corestore_def get_def arg_opts_def optsToIndex_def no_opts_def truthy_key_def
      idxString_def storageRoot_def truthy_name_def default_store_def run_def open_stream_eq Let_def)

section \<open>close leaves the default core in place\<close>

text \<open>
  Claim C10. \<^verbatim>\<open>close\<close> does not touch the default slot, and neither does the reset it
  ends with nor anything the engines report afterwards: on a store with a default core,
  after \<^verbatim>\<open>close()\<close> and any further events \<^verbatim>\<open>isDefaultSet()\<close> is true and \<^verbatim>\<open>default\<close>
  returns the old handle without making a core.
\<close>

theorem close_keeps_default:
  "defaultCore st = Some d \<Longrightarrow>
     defaultCore (close st) = Some d \<and> defaultCore (reset op err st) = Some d \<and>
     (let st' = run E (CallClose # evs) st in
        isDefaultSet st' \<and> default_store E fresh a st' = Inr (d, st'))"
  using defaultCore_run [of st d E "CallClose # evs"]
  by (simp add: defaultCore_close reset_def Let_def isDefaultSet_def default_store_set)

theorem close_keeps_default_witness:
  "(let st = run example_env [CallDefault (Opts no_opts) ([0], [9]), CoreReady 0 [0]] (Corestore [1]);
        st' = run example_env [CallClose, CoreClosed 0 None, CoreClosed 0 None] st
    in defaultCore st = Some 0 \<and> cores st = [(''a'', 0), (''b'', 0)] \<and>
       cores st' = [] \<and> replicationStreams st' = [] \<and> cb_calls (closes st' ! 0) = [None] \<and>
       c_closed (objs st' ! 0) \<and> isDefaultSet st' \<and>
       default_store example_env ([7], [8]) (Opts no_opts) st' = Inr (0, st'))"
proof -
  have ev: "defaultCore (run example_env [CallDefault (Opts no_opts) ([0], [9]), CoreReady 0 [0]] (Corestore [1])) = Some 0"
    by code_simp
  have ev2: "let st = run example_env [CallDefault (Opts no_opts) ([0], [9]), CoreReady 0 [0]] (Corestore [1]);
        st' = run example_env [CallClose, CoreClosed 0 None, CoreClosed 0 None] st
    in cores st = [(''a'', 0), (''b'', 0)] \<and>
       cores st' = [] \<and> replicationStreams st' = [] \<and> cb_calls (closes st' ! 0) = [None] \<and>
       c_closed (objs st' ! 0)"
    by code_simp
  show ?thesis
    using close_keeps_default [OF ev, of 0 None example_env "[CoreClosed 0 None, CoreClosed 0 None]" "([7], [8])" "Opts no_opts"] ev ev2
    by (simp add: Let_def)
qed

section \<open>A discovery-only request for a log that is not there\<close>



section \<open>Attaching cores to streams\<close>




section \<open>One handle per index\<close>




section \<open>close on a store without registered cores\<close>

text \<open>
  Claim C3. \<^verbatim>\<open>close(cb)\<close> should always call \<^verbatim>\<open>cb\<close> in the end, also on a store with no
  cores. It does not: on every reachable store whose registry is empty the counter
  \<^verbatim>\<open>remaining\<close> starts at 0, no \<^verbatim>\<open>core.close(onclose)\<close> is issued, so nothing ever calls
  \<^verbatim>\<open>onclose\<close>, and whatever happens afterwards \<^verbatim>\<open>cb\<close> has not been called (nor has
  \<^verbatim>\<open>reset\<close> run for this call).
\<close>

theorem close_without_cores_never_calls_back:
  assumes "st = run E evs0 (Corestore sid)" "cores st = []"
  shows "let st' = run E evs (close st)
         in length (closes st) < length (closes st') \<and> cb_calls (closes st' ! length (closes st)) = []"
proof -
  have "wf st" unfolding assms(1) by (rule wf_run)
  from silent_run [OF close_no_cores [OF this assms(2)], of E evs]
  show ?thesis by (simp add: silent_def Let_def)
qed

theorem close_without_cores_never_calls_back_witness:
  "close (Corestore [1]) = (Corestore [1])\<lparr>closes := [\<lparr>remaining = 0, cb_calls = []\<rparr>]\<rparr> \<and>
   (let st' = run example_env
         [CoreClosed 0 None, CallGet (Buffer [0]) ([0], [9]), CoreReady 0 [0], StreamClose 0]
         (close (Corestore [1]))
    in cb_calls (closes st' ! 0) = [] \<and> cores st' = [(''a'', 0), (''b'', 0)])"
proof -
  have e: "close (Corestore [1]) = (Corestore [1])\<lparr>closes := [\<lparr>remaining = 0, cb_calls = []\<rparr>]\<rparr>"
    by (simp add: close_def Corestore_def)
  have e2: "cores (run example_env
         [CoreClosed 0 None, CallGet (Buffer [0]) ([0], [9]), CoreReady 0 [0], StreamClose 0]
         (close (Corestore [1]))) = [(''a'', 0), (''b'', 0)]"
    by code_simp
  have h: "Corestore [1] = run example_env [] (Corestore [1])" "cores (Corestore [1]) = []"
    by (simp_all add: run_def Corestore_def)
  from close_without_cores_never_calls_back [OF h,
      of "[CoreClosed 0 None, CallGet (Buffer [0]) ([0], [9]), CoreReady 0 [0], StreamClose 0]"] e e2
  show ?thesis by (simp add: Let_def Corestore_def)
qed

section \<open>The termination signals of a stream\<close>


section \<open>What termination and close do guarantee\<close>

text \<open>
  The three termination signals of a stream run the same listener, a second signal
  changes nothing, and for a session that is in the active list the first signal removes
  exactly that session.
\<close>

lemma termination_signal_removes_once:
  "step E (StreamEnd s) st = step E (StreamFinish s) st \<and>
   step E (StreamClose s) st = step E (StreamFinish s) st \<and>
   step E (StreamFinish s) (step E (StreamFinish s) st) = step E (StreamFinish s) st \<and>
   (s < length (streams st) \<and> s \<in> set (replicationStreams st) \<and> \<not> s_closed (streams st ! s) \<longrightarrow>
      replicationStreams (step E (StreamFinish s) st) = remove1 s (replicationStreams st) \<and>
      s_closed (streams (step E (StreamFinish s) st) ! s))"
  by (auto simp: step_def replicate_onclose_def splice1_indexOf)

lemma termination_signal_removes_once_witness:
  "(let st = run example_env
       [CallReplicate NoKey (Some \<lparr>encrypt = False\<rparr>), CallReplicate NoKey (Some \<lparr>encrypt = False\<rparr>)]
       (Corestore [1])
    in replicationStreams st = [0, 1] \<and>
       replicationStreams (step example_env (StreamFinish 0) st) = [1] \<and>
       s_closed (streams (step example_env (StreamFinish 0) st) ! 0) \<and>
       step example_env (StreamClose 0) (step example_env (StreamFinish 0) st) =
         step example_env (StreamFinish 0) st)"
proof -
  let ?st = "run example_env
       [CallReplicate NoKey (Some \<lparr>encrypt = False\<rparr>), CallReplicate NoKey (Some \<lparr>encrypt = False\<rparr>)]
       (Corestore [1])"
  have h: "0 < length (streams ?st) \<and> 0 \<in> set (replicationStreams ?st) \<and> \<not> s_closed (streams ?st ! 0) \<and>
     replicationStreams ?st = [0, 1]"
    by code_simp
  from termination_signal_removes_once [of example_env 0 ?st]
    termination_signal_removes_once [of example_env 0 "step example_env (StreamFinish 0) ?st"] h
  show ?thesis by (simp add: Let_def)
qed

text \<open>
  In every reachable store \<^verbatim>\<open>close\<close> calls \<^verbatim>\<open>destroy()\<close> once on each stream of the active
  list and on no other stream.
\<close>

lemma close_destroys_each_session_once:
  assumes "st = run E evs (Corestore sid)"
  shows "(\<forall>s \<in> set (replicationStreams st).
            s_destroyed (streams (close st) ! s) = Suc (s_destroyed (streams st ! s))) \<and>
         (\<forall>s < length (streams st). s \<notin> set (replicationStreams st) \<longrightarrow>
            s_destroyed (streams (close st) ! s) = s_destroyed (streams st ! s))"
proof -
  have wf: "wf st" unfolding assms by (rule wf_run)
  have d: "distinct (replicationStreams st)" unfolding assms by (rule distinct_streams_run)
  from wf have "\<forall>s \<in> set (replicationStreams st). s < length (streams st)" by (simp add: wf_def)
  with d show ?thesis by (auto simp: close_destroyed count_list_distinct)
qed

lemma close_destroys_each_session_once_witness:
  "(let st = run example_env
       [CallReplicate NoKey (Some \<lparr>encrypt = False\<rparr>), CallReplicate NoKey (Some \<lparr>encrypt = False\<rparr>),
        StreamEnd 0] (Corestore [1])
    in replicationStreams st = [1] \<and>
       s_destroyed (streams (close st) ! 1) = Suc (s_destroyed (streams st ! 1)) \<and>
       s_destroyed (streams (close st) ! 0) = s_destroyed (streams st ! 0))"
proof -
  let ?st = "run example_env
       [CallReplicate NoKey (Some \<lparr>encrypt = False\<rparr>), CallReplicate NoKey (Some \<lparr>encrypt = False\<rparr>),
        StreamEnd 0] (Corestore [1])"
  have h: "replicationStreams ?st = [1] \<and> length (streams ?st) = 2" by code_simp
  from close_destroys_each_session_once [OF refl, of example_env
      "[CallReplicate NoKey (Some \<lparr>encrypt = False\<rparr>), CallReplicate NoKey (Some \<lparr>encrypt = False\<rparr>),
        StreamEnd 0]" "[1]"] h
  show ?thesis by (simp add: Let_def)
qed

text \<open>
  What an answer to \<^verbatim>\<open>core.close(onclose)\<close> does: an error resets the registry and the
  active list and passes the error to \<^verbatim>\<open>cb\<close> at once; a success that brings \<^verbatim>\<open>remaining\<close>
  to 0 resets both and passes \<^verbatim>\<open>null\<close>; any other success only counts down.
\<close>

lemma close_callback_outcomes:
  assumes "op < length (closes st)"
  shows "(let st' = close_onclose op (Some e) st in
            cores st' = [] \<and> replicationStreams st' = [] \<and>
            cb_calls (closes st' ! op) = cb_calls (closes st ! op) @ [Some e]) \<and>
         (remaining (closes st ! op) = 1 \<longrightarrow>
            (let st' = close_onclose op None st in
               cores st' = [] \<and> replicationStreams st' = [] \<and>
               cb_calls (closes st' ! op) = cb_calls (closes st ! op) @ [None])) \<and>
         (remaining (closes st ! op) \<noteq> 1 \<longrightarrow>
            (let st' = close_onclose op None st in
               cores st' = cores st \<and> replicationStreams st' = replicationStreams st \<and>
               cb_calls (closes st' ! op) = cb_calls (closes st ! op) \<and>
               remaining (closes st' ! op) = remaining (closes st ! op) - 1))"
  using assms by (simp add: close_onclose_def reset_def Let_def)

lemma close_callback_outcomes_witness:
  "(let st = run example_env
       [CallGet (Buffer [0]) ([0], [9]), CoreReady 0 [0], CallClose] (Corestore [1]);
        st1 = close_onclose 0 None st; st2 = close_onclose 0 None st1; st3 = close_onclose 0 (Some ''io'') st
    in remaining (closes st ! 0) = 2 \<and>
       cores st1 = cores st \<and> cb_calls (closes st1 ! 0) = [] \<and> remaining (closes st1 ! 0) = 1 \<and>
       cores st2 = [] \<and> replicationStreams st2 = [] \<and> cb_calls (closes st2 ! 0) = [None] \<and>
       cores st3 = [] \<and> cb_calls (closes st3 ! 0) = [Some ''io''])"
proof -
  let ?st = "run example_env
       [CallGet (Buffer [0]) ([0], [9]), CoreReady 0 [0], CallClose] (Corestore [1])"
  have h: "0 < length (closes ?st)" "remaining (closes ?st ! 0) = 2" "cb_calls (closes ?st ! 0) = []"
    by code_simp+
  have h1: "0 < length (closes (close_onclose 0 None ?st))"
    using h(1) by (simp add: close_onclose_def reset_def Let_def)
  from close_callback_outcomes [OF h(1), of "''io''"] close_callback_outcomes [OF h1, of "''io''"] h
  show ?thesis by (simp add: Let_def)
qed

text \<open>
  So the first error resets the store while another \<^verbatim>\<open>core.close\<close> of the same call is
  still unanswered, and a second error calls \<^verbatim>\<open>cb\<close> a second time.
\<close>

lemma close_error_resets_early:
  "(let st = run example_env
       [CallGet (Buffer [0]) ([0], [9]), CoreReady 0 [0], CallClose, CoreClosed 0 (Some ''io'')]
       (Corestore [1]);
        st' = step example_env (CoreClosed 0 (Some ''io'')) st
    in cb_calls (closes st ! 0) = [Some ''io''] \<and> cores st = [] \<and> c_closing (objs st ! 0) = [0] \<and>
       cb_calls (closes st' ! 0) = [Some ''io'', Some ''io''])"
  by code_simp

end
